theory Spec2Isabelle
  imports Complex_Main
begin

section \<open>Single-precision arithmetic\<close>

text \<open>
  The fields \<open>step\<close> and \<open>_error\<close> of \<open>FloatStepIterImpl\<close> are C++ \<open>float\<close>s: IEEE 754
  binary32 values. A value is a finite rational that binary32 represents, an infinity
  or a NaN. Every arithmetic operation computes the exact result and rounds it to the
  nearest representable value, ties to even (the default rounding mode), each operation
  on its own (\<open>FLT_EVAL_METHOD == 0\<close>, no contraction of \<open>a + b * c\<close>).

  The sign of a zero is not kept. The operations used below cannot tell the two zeros
  apart (\<open>-0 < 0\<close> is false, \<open>-0 == 0\<close> is true), except the division of a nonzero value by
  a zero, whose result is an infinity with either sign; the divisor is read as \<open>+0\<close>.
\<close>

datatype float = Finite rat | PInf | NInf | NaN

text \<open>\<open>ilog2 n\<close> is the position of the leading bit of \<open>n \<ge> 1\<close>.\<close>

function ilog2 :: "int \<Rightarrow> int" where
  "ilog2 n = (if n < 2 then 0 else 1 + ilog2 (n div 2))"
  by pat_completeness auto
termination
  by (relation "measure nat") auto

declare ilog2.simps [simp del]

definition pow2 :: "int \<Rightarrow> rat" where
  "pow2 e = (if 0 \<le> e then 2 ^ nat e else 1 / 2 ^ nat (- e))"

text \<open>The binary exponent of \<open>x > 0\<close>: the \<open>e\<close> with \<open>2^e \<le> x < 2^(e+1)\<close>.\<close>

definition floor_log2 :: "rat \<Rightarrow> int" where
  "floor_log2 x =
     (if 1 \<le> x then ilog2 \<lfloor>x\<rfloor>
      else - (1 + ilog2 (\<lceil>1 / x\<rceil> - 1)))"

text \<open>Rounding to the nearest integer, a tie to the even one.\<close>

definition round_even :: "rat \<Rightarrow> int" where
  "round_even x =
     (let f = \<lfloor>x\<rfloor>; r = x - of_int f
      in if r < 1 / 2 then f
         else if 1 / 2 < r then f + 1
         else if even f then f else f + 1)"

text \<open>
  Rounding a rational to binary32: 24 significant bits, the exponent never below
  \<open>-126\<close> (subnormal values have the spacing \<open>2^-149\<close>), overflow to an infinity when the
  rounded magnitude reaches \<open>2^128\<close>.
\<close>

definition round_to_float :: "rat \<Rightarrow> float" where
  "round_to_float x =
     (if x = 0 then Finite 0
      else let e = max (floor_log2 \<bar>x\<bar>) (- 126);
               q = pow2 (e - 23);
               y = of_int (round_even (x / q)) * q
           in if 2 ^ 128 \<le> \<bar>y\<bar> then (if 0 < x then PInf else NInf) else Finite y)"

fun fneg :: "float \<Rightarrow> float" where
  "fneg (Finite x) = Finite (- x)"
| "fneg PInf = NInf"
| "fneg NInf = PInf"
| "fneg NaN = NaN"

fun fadd :: "float \<Rightarrow> float \<Rightarrow> float" where
  "fadd (Finite x) (Finite y) = round_to_float (x + y)"
| "fadd NaN _ = NaN"
| "fadd _ NaN = NaN"
| "fadd PInf NInf = NaN"
| "fadd NInf PInf = NaN"
| "fadd PInf _ = PInf"
| "fadd _ PInf = PInf"
| "fadd NInf _ = NInf"
| "fadd _ NInf = NInf"

definition fsub :: "float \<Rightarrow> float \<Rightarrow> float" where
  "fsub x y = fadd x (fneg y)"

fun fmul :: "float \<Rightarrow> float \<Rightarrow> float" where
  "fmul (Finite x) (Finite y) = round_to_float (x * y)"
| "fmul NaN _ = NaN"
| "fmul _ NaN = NaN"
| "fmul PInf (Finite y) = (if y = 0 then NaN else if 0 < y then PInf else NInf)"
| "fmul NInf (Finite y) = (if y = 0 then NaN else if 0 < y then NInf else PInf)"
| "fmul (Finite x) PInf = (if x = 0 then NaN else if 0 < x then PInf else NInf)"
| "fmul (Finite x) NInf = (if x = 0 then NaN else if 0 < x then NInf else PInf)"
| "fmul PInf PInf = PInf"
| "fmul NInf NInf = PInf"
| "fmul PInf NInf = NInf"
| "fmul NInf PInf = NInf"

fun fdiv :: "float \<Rightarrow> float \<Rightarrow> float" where
  "fdiv (Finite x) (Finite y) =
     (if y = 0 then (if x = 0 then NaN else if 0 < x then PInf else NInf)
      else round_to_float (x / y))"
| "fdiv NaN _ = NaN"
| "fdiv _ NaN = NaN"
| "fdiv (Finite x) PInf = Finite 0"
| "fdiv (Finite x) NInf = Finite 0"
| "fdiv PInf (Finite y) = (if 0 \<le> y then PInf else NInf)"
| "fdiv NInf (Finite y) = (if 0 \<le> y then NInf else PInf)"
| "fdiv PInf _ = NaN"
| "fdiv NInf _ = NaN"

text \<open>The comparisons \<open><\<close> and \<open>==\<close>: false whenever an operand is a NaN.\<close>

fun fless :: "float \<Rightarrow> float \<Rightarrow> bool" where
  "fless (Finite x) (Finite y) = (x < y)"
| "fless (Finite x) PInf = True"
| "fless (Finite x) NInf = False"
| "fless NInf (Finite y) = True"
| "fless NInf PInf = True"
| "fless NInf NInf = False"
| "fless PInf _ = False"
| "fless NaN _ = False"
| "fless _ NaN = False"

fun feq :: "float \<Rightarrow> float \<Rightarrow> bool" where
  "feq (Finite x) (Finite y) = (x = y)"
| "feq PInf PInf = True"
| "feq NInf NInf = True"
| "feq NaN _ = False"
| "feq _ NaN = False"
| "feq (Finite x) PInf = False"
| "feq (Finite x) NInf = False"
| "feq PInf (Finite y) = False"
| "feq NInf (Finite y) = False"
| "feq PInf NInf = False"
| "feq NInf PInf = False"

definition trunc :: "rat \<Rightarrow> int" where
  "trunc x = (if 0 \<le> x then \<lfloor>x\<rfloor> else \<lceil>x\<rceil>)"

text \<open>
  \<open>std::modf(x, &intPart)\<close> returns the fractional part and stores the integral part, both
  with the sign of \<open>x\<close>; the first component is the returned value. Both parts of a
  representable \<open>x\<close> are representable, so nothing is rounded.
\<close>

fun modf :: "float \<Rightarrow> float \<times> float" where
  "modf (Finite x) = (Finite (x - of_int (trunc x)), Finite (of_int (trunc x)))"
| "modf PInf = (Finite 0, PInf)"
| "modf NInf = (Finite 0, NInf)"
| "modf NaN = (NaN, NaN)"

text \<open>The conversion of an integer to \<open>float\<close>.\<close>

definition float_of_int :: "int \<Rightarrow> float" where
  "float_of_int k = round_to_float (of_int k)"

text \<open>
  The conversion of a \<open>float\<close> to \<open>std::ptrdiff_t\<close> (64 bits) truncates towards zero. When
  the truncated value is not representable, or the operand is an infinity or a NaN, the
  behaviour is undefined: \<open>None\<close>.
\<close>

fun to_ptrdiff :: "float \<Rightarrow> int option" where
  "to_ptrdiff (Finite x) =
     (if - (2 ^ 63) \<le> trunc x \<and> trunc x < 2 ^ 63 then Some (trunc x) else None)"
| "to_ptrdiff _ = None"


section \<open>The fractional-step primitive\<close>

text \<open>
  \<open>FloatStepIterImpl<I, V>\<close>. The wrapped random-access iterator \<open>iter\<close> is modelled by its
  position, an integer index into the underlying sequence; \<open>error\<close> is the private member
  \<open>_error\<close>. An operation is \<open>None\<close> where the C++ has undefined behaviour.
\<close>

record FloatStepIterImpl =
  iter :: int
  step :: float
  error :: float

text \<open>The constructor \<open>FloatStepIterImpl(const wrapped_type& iter, float step)\<close>.\<close>

definition FloatStepIterImpl_init :: "int \<Rightarrow> float \<Rightarrow> FloatStepIterImpl" where
  "FloatStepIterImpl_init i s = \<lparr>iter = i, step = s, error = Finite 0\<rparr>"

text \<open>The copy constructor.\<close>

definition FloatStepIterImpl_copy :: "FloatStepIterImpl \<Rightarrow> FloatStepIterImpl" where
  "FloatStepIterImpl_copy r = \<lparr>iter = iter r, step = step r, error = error r\<rparr>"

definition FloatStepIterImpl_equal :: "FloatStepIterImpl \<Rightarrow> FloatStepIterImpl \<Rightarrow> bool" where
  "FloatStepIterImpl_equal this r \<longleftrightarrow> iter this = iter r \<and> feq (error this) (error r)"

definition FloatStepIterImpl_difference :: "FloatStepIterImpl \<Rightarrow> FloatStepIterImpl \<Rightarrow> int option" where
  "FloatStepIterImpl_difference this o' =
     to_ptrdiff
       (fdiv (fadd (float_of_int (iter this - iter o')) (fsub (error this) (error o')))
             (step this))"

text \<open>
  \<open>advance(int n)\<close>. \<open>n\<close> is converted to \<open>float\<close> for the product; \<open>std::advance(iter,
  intPart)\<close> converts the float \<open>intPart\<close> to the difference type of the wrapped iterator.
  \<open>n\<close> ranges over all integers here, the values of a C++ \<open>int\<close> among them.
\<close>

definition FloatStepIterImpl_advance :: "int \<Rightarrow> FloatStepIterImpl \<Rightarrow> FloatStepIterImpl option" where
  "FloatStepIterImpl_advance n this =
     (let (frac, intPart) = modf (fadd (error this) (fmul (step this) (float_of_int n)));
          (error', intPart') =
             (if fless frac (Finite 0)
              then (fadd frac (Finite 1), fsub intPart (Finite 1))
              else (frac, intPart))
      in case to_ptrdiff intPart' of
           None \<Rightarrow> None
         | Some d \<Rightarrow> Some (this\<lparr>error := error', iter := iter this + d\<rparr>))"

text \<open>\<open>k\<close> successive single-step advances, as a caller's loop of increments makes them.\<close>

primrec advance_times :: "nat \<Rightarrow> FloatStepIterImpl \<Rightarrow> FloatStepIterImpl option" where
  "advance_times 0 this = Some this"
| "advance_times (Suc k) this =
     (case FloatStepIterImpl_advance 1 this of None \<Rightarrow> None | Some this' \<Rightarrow> advance_times k this')"


section \<open>The generating primitive\<close>

text \<open>
  \<open>GeneratingIterImpl<Generator>\<close>. The producer is a callable object with a state of its
  own: \<open>std::invoke(generator)\<close> returns a value and leaves the callable in a new state,
  which is what the parameter \<open>invoke\<close> of the operations computes.
\<close>

record ('v, 'g) GeneratingIterImpl =
  val :: 'v
  generator :: 'g

text \<open>The loop body \<open>val = std::invoke(generator);\<close>.\<close>

definition invoke_into_val ::
  "('g \<Rightarrow> 'v \<times> 'g) \<Rightarrow> ('v, 'g) GeneratingIterImpl \<Rightarrow> ('v, 'g) GeneratingIterImpl" where
  "invoke_into_val invoke this =
     (let (v, g) = invoke (generator this) in \<lparr>val = v, generator = g\<rparr>)"

text \<open>
  \<open>for (int i = 0; i < n; i++)\<close>. The counter stays below \<open>n\<close>, so \<open>i++\<close> does not
  overflow and the integers are unbounded here.
\<close>

function GeneratingIterImpl_loop ::
  "('g \<Rightarrow> 'v \<times> 'g) \<Rightarrow> int \<Rightarrow> int \<Rightarrow> ('v, 'g) GeneratingIterImpl
     \<Rightarrow> ('v, 'g) GeneratingIterImpl" where
  "GeneratingIterImpl_loop invoke i n this =
     (if i < n then GeneratingIterImpl_loop invoke (i + 1) n (invoke_into_val invoke this)
      else this)"
  by pat_completeness auto
termination
  by (relation "measure (\<lambda>(invoke, i, n, this). nat (n - i))") auto

declare GeneratingIterImpl_loop.simps [simp del]

definition GeneratingIterImpl_advance ::
  "('g \<Rightarrow> 'v \<times> 'g) \<Rightarrow> int \<Rightarrow> ('v, 'g) GeneratingIterImpl \<Rightarrow> ('v, 'g) GeneratingIterImpl" where
  "GeneratingIterImpl_advance invoke n this = GeneratingIterImpl_loop invoke 0 n this"

text \<open>\<open>dereference()\<close> returns \<open>val\<close> and touches nothing: the value and the state after.\<close>

definition GeneratingIterImpl_dereference ::
  "('v, 'g) GeneratingIterImpl \<Rightarrow> 'v \<times> ('v, 'g) GeneratingIterImpl" where
  "GeneratingIterImpl_dereference this = (val this, this)"

text \<open>
  What a producer does on its own, to compare \<open>advance\<close> with: the values of the first \<open>k\<close>
  invocations in order, and the producer after them.
\<close>

primrec produced :: "('g \<Rightarrow> 'v \<times> 'g) \<Rightarrow> nat \<Rightarrow> 'g \<Rightarrow> 'v list" where
  "produced invoke 0 g = []"
| "produced invoke (Suc k) g = fst (invoke g) # produced invoke k (snd (invoke g))"

primrec producer_after :: "('g \<Rightarrow> 'v \<times> 'g) \<Rightarrow> nat \<Rightarrow> 'g \<Rightarrow> 'g" where
  "producer_after invoke 0 g = g"
| "producer_after invoke (Suc k) g = producer_after invoke k (snd (invoke g))"

text \<open>A producer that also counts its invocations.\<close>

definition counted :: "('g \<Rightarrow> 'v \<times> 'g) \<Rightarrow> 'g \<times> nat \<Rightarrow> 'v \<times> ('g \<times> nat)" where
  "counted invoke = (\<lambda>(g, c). let (v, g') = invoke g in (v, (g', Suc c)))"

text \<open>The producer of the spec's scenario: a counter that returns its value and steps.\<close>

definition counter :: "int \<Rightarrow> int \<times> int" where
  "counter c = (c, c + 1)"


section \<open>The iterator adaptor\<close>

text \<open>
  \<open>iterator_adaptor_impl<Impl, Category>\<close> derives from the primitive \<open>Impl\<close> and adds the
  operators. An adapted iterator is an object: a member function works on the object
  \<open>this\<close> designates and a local variable is another object. The store maps the
  identity of each live object to its state; \<open>fresh\<close> is the identity the next object
  gets.
\<close>

record 'p store =
  objs :: "nat \<Rightarrow> 'p option"
  fresh :: nat

definition store_ok :: "'p store \<Rightarrow> bool" where
  "store_ok \<sigma> \<longleftrightarrow> (\<forall>a. objs \<sigma> a \<noteq> None \<longrightarrow> a < fresh \<sigma>)"

text \<open>A new object with the state \<open>v\<close>, and the end of an object's lifetime.\<close>

definition construct :: "'p \<Rightarrow> 'p store \<Rightarrow> nat \<times> 'p store" where
  "construct v \<sigma> = (fresh \<sigma>, \<sigma>\<lparr>objs := (objs \<sigma>)(fresh \<sigma> \<mapsto> v), fresh := Suc (fresh \<sigma>)\<rparr>)"

definition destroy :: "nat \<Rightarrow> 'p store \<Rightarrow> 'p store" where
  "destroy a \<sigma> = \<sigma>\<lparr>objs := (objs \<sigma>)(a := None)\<rparr>"

text \<open>
  A call of a member function of the primitive that changes the object, such as
  \<open>Impl::advance(n)\<close>, on the object \<open>a\<close>.
\<close>

definition call :: "('p \<Rightarrow> 'p option) \<Rightarrow> nat \<Rightarrow> 'p store \<Rightarrow> 'p store option" where
  "call f a \<sigma> =
     (case objs \<sigma> a of
        None \<Rightarrow> None
      | Some p \<Rightarrow> (case f p of None \<Rightarrow> None | Some p' \<Rightarrow> Some (\<sigma>\<lparr>objs := (objs \<sigma>)(a \<mapsto> p')\<rparr>)))"

text \<open>
  The operators take the copy constructor and \<open>advance\<close> of the primitive as parameters.
  \<open>operator_inc\<close> is \<open>operator++()\<close>, which C++ calls for the prefix form \<open>++it\<close>; it returns
  an adaptor by value. \<open>operator_inc_int\<close> is \<open>operator++(int)\<close>, which C++ calls for the
  postfix form \<open>it++\<close>; it returns the reference \<open>*this\<close>, here the identity of the object.
  \<open>operator_dec\<close> and \<open>operator_dec_int\<close> are \<open>operator--()\<close> and \<open>operator--(int)\<close>.
\<close>

definition operator_inc ::
  "('p \<Rightarrow> 'p) \<Rightarrow> (int \<Rightarrow> 'p \<Rightarrow> 'p option) \<Rightarrow> nat \<Rightarrow> 'p store \<Rightarrow> ('p \<times> 'p store) option" where
  "operator_inc copy adv this \<sigma> =
     (case objs \<sigma> this of
        None \<Rightarrow> None
      | Some self \<Rightarrow>
          let (old, \<sigma>1) = construct (copy self) \<sigma>
          in (case call (adv 1) this \<sigma>1 of
                None \<Rightarrow> None
              | Some \<sigma>2 \<Rightarrow>
                  (case objs \<sigma>2 old of
                     None \<Rightarrow> None
                   | Some v \<Rightarrow> Some (v, destroy old \<sigma>2))))"

definition operator_inc_int ::
  "(int \<Rightarrow> 'p \<Rightarrow> 'p option) \<Rightarrow> nat \<Rightarrow> 'p store \<Rightarrow> (nat \<times> 'p store) option" where
  "operator_inc_int adv this \<sigma> =
     (case call (adv 1) this \<sigma> of None \<Rightarrow> None | Some \<sigma>1 \<Rightarrow> Some (this, \<sigma>1))"

definition operator_dec ::
  "('p \<Rightarrow> 'p) \<Rightarrow> (int \<Rightarrow> 'p \<Rightarrow> 'p option) \<Rightarrow> nat \<Rightarrow> 'p store \<Rightarrow> ('p \<times> 'p store) option" where
  "operator_dec copy adv this \<sigma> =
     (case objs \<sigma> this of
        None \<Rightarrow> None
      | Some self \<Rightarrow>
          let (old, \<sigma>1) = construct (copy self) \<sigma>
          in (case call (adv (- 1)) this \<sigma>1 of
                None \<Rightarrow> None
              | Some \<sigma>2 \<Rightarrow>
                  (case objs \<sigma>2 old of
                     None \<Rightarrow> None
                   | Some v \<Rightarrow> Some (v, destroy old \<sigma>2))))"

definition operator_dec_int ::
  "(int \<Rightarrow> 'p \<Rightarrow> 'p option) \<Rightarrow> nat \<Rightarrow> 'p store \<Rightarrow> (nat \<times> 'p store) option" where
  "operator_dec_int adv this \<sigma> =
     (case call (adv (- 1)) this \<sigma> of None \<Rightarrow> None | Some \<sigma>1 \<Rightarrow> Some (this, \<sigma>1))"

text \<open>
  \<open>operator+(difference_type d)\<close> and \<open>operator-(difference_type d)\<close> of the random-access
  adaptor: \<open>res\<close> is a local object, copy-constructed from \<open>*this\<close>, advanced, and returned
  by value. \<open>d\<close> is a value of \<open>std::ptrdiff_t\<close>, a signed integer of 64 bits, and
  \<open>operator-\<close> computes \<open>-d\<close> in that type: the negation of the least value, \<open>-2^63\<close>,
  overflows, which is undefined behaviour.
\<close>

definition ptrdiff_neg :: "int \<Rightarrow> int option" where
  "ptrdiff_neg d = (if d = - (2 ^ 63) then None else Some (- d))"

definition operator_plus ::
  "('p \<Rightarrow> 'p) \<Rightarrow> (int \<Rightarrow> 'p \<Rightarrow> 'p option) \<Rightarrow> nat \<Rightarrow> int \<Rightarrow> 'p store \<Rightarrow> ('p \<times> 'p store) option" where
  "operator_plus copy adv this d \<sigma> =
     (case objs \<sigma> this of
        None \<Rightarrow> None
      | Some self \<Rightarrow>
          let (res, \<sigma>1) = construct (copy self) \<sigma>
          in (case call (adv d) res \<sigma>1 of
                None \<Rightarrow> None
              | Some \<sigma>2 \<Rightarrow>
                  (case objs \<sigma>2 res of
                     None \<Rightarrow> None
                   | Some v \<Rightarrow> Some (v, destroy res \<sigma>2))))"

definition operator_minus ::
  "('p \<Rightarrow> 'p) \<Rightarrow> (int \<Rightarrow> 'p \<Rightarrow> 'p option) \<Rightarrow> nat \<Rightarrow> int \<Rightarrow> 'p store \<Rightarrow> ('p \<times> 'p store) option" where
  "operator_minus copy adv this d \<sigma> =
     (case objs \<sigma> this of
        None \<Rightarrow> None
      | Some self \<Rightarrow>
          let (res, \<sigma>1) = construct (copy self) \<sigma>
          in (case ptrdiff_neg d of
                None \<Rightarrow> None
              | Some d' \<Rightarrow>
                  (case call (adv d') res \<sigma>1 of
                     None \<Rightarrow> None
                   | Some \<sigma>2 \<Rightarrow>
                       (case objs \<sigma>2 res of
                          None \<Rightarrow> None
                        | Some v \<Rightarrow> Some (v, destroy res \<sigma>2)))))"

text \<open>
  \<open>float_step_iterator\<close>, the adaptor over \<open>FloatStepIterImpl\<close>: the adaptor's
  \<open>difference_type\<close> is \<open>std::ptrdiff_t\<close> and \<open>advance\<close> takes an \<open>int\<close>, so the argument is
  narrowed to 32 bits at the call: the low 32 bits, read as two's complement.
\<close>

definition int_of_ptrdiff :: "int \<Rightarrow> int" where
  "int_of_ptrdiff d = signed_take_bit 31 d"

definition float_step_advance :: "int \<Rightarrow> FloatStepIterImpl \<Rightarrow> FloatStepIterImpl option" where
  "float_step_advance d = FloatStepIterImpl_advance (int_of_ptrdiff d)"

text \<open>
  \<open>generator(Generator&& gen)\<close> called on an lvalue of type \<open>T\<close> deduces \<open>Generator = T&\<close>
  and returns a \<open>generating_iterator<T&>\<close>: the member \<open>Generator generator\<close> of its primitive
  is then a reference to the caller's callable, not a callable of its own. The store
  holds both kinds of object; the member \<open>generator\<close> of such a primitive is the identity
  of the callable it designates.
\<close>

datatype ('v, 'c) object = Generating_iterator "('v, nat) GeneratingIterImpl" | Callable 'c

text \<open>
  The implicit copy constructor of \<open>GeneratingIterImpl\<close> copies member by member: a
  reference member of the copy is bound to the object that the original's designates.
\<close>

definition GeneratingIterImpl_copy ::
  "('v, 'g) GeneratingIterImpl \<Rightarrow> ('v, 'g) GeneratingIterImpl" where
  "GeneratingIterImpl_copy r = \<lparr>val = val r, generator = generator r\<rparr>"

text \<open>\<open>std::invoke(generator)\<close> through the reference: the designated callable runs and changes.\<close>

definition invoke_reference ::
  "('c \<Rightarrow> 'v \<times> 'c) \<Rightarrow> nat \<Rightarrow> ('v, 'c) object store \<Rightarrow> ('v \<times> ('v, 'c) object store) option" where
  "invoke_reference invoke r \<sigma> =
     (case objs \<sigma> r of
        Some (Callable c) \<Rightarrow>
          (let (v, c') = invoke c in Some (v, \<sigma>\<lparr>objs := (objs \<sigma>)(r \<mapsto> Callable c')\<rparr>))
      | _ \<Rightarrow> None)"

text \<open>\<open>advance(int n)\<close> of \<open>GeneratingIterImpl<T&>\<close> on the iterator \<open>this\<close>: the same loop.\<close>

function GeneratingIterImpl_ref_loop ::
  "('c \<Rightarrow> 'v \<times> 'c) \<Rightarrow> int \<Rightarrow> int \<Rightarrow> nat \<Rightarrow> ('v, 'c) object store
     \<Rightarrow> ('v, 'c) object store option" where
  "GeneratingIterImpl_ref_loop invoke i n this \<sigma> =
     (if i < n then
        (case objs \<sigma> this of
           Some (Generating_iterator it) \<Rightarrow>
             (case invoke_reference invoke (generator it) \<sigma> of
                None \<Rightarrow> None
              | Some (v, \<sigma>1) \<Rightarrow>
                  GeneratingIterImpl_ref_loop invoke (i + 1) n this
                    (\<sigma>1\<lparr>objs := (objs \<sigma>1)(this \<mapsto> Generating_iterator (it\<lparr>val := v\<rparr>))\<rparr>))
         | _ \<Rightarrow> None)
      else Some \<sigma>)"
  by pat_completeness auto
termination
  by (relation "measure (\<lambda>(invoke, i, n, this, \<sigma>). nat (n - i))") auto

declare GeneratingIterImpl_ref_loop.simps [simp del]

definition GeneratingIterImpl_ref_advance ::
  "('c \<Rightarrow> 'v \<times> 'c) \<Rightarrow> int \<Rightarrow> nat \<Rightarrow> ('v, 'c) object store \<Rightarrow> ('v, 'c) object store option" where
  "GeneratingIterImpl_ref_advance invoke n this \<sigma> = GeneratingIterImpl_ref_loop invoke 0 n this \<sigma>"

text \<open>
  The store of \<open>Counter g; auto a = generator(g);\<close> with the counter \<open>g\<close>, object 0, at 10 and
  the iterator \<open>a\<close>, object 1, whose \<open>generator\<close> designates \<open>g\<close>. Its \<open>val\<close> is not initialised
  by the constructor; it is 0 here.
\<close>

definition shared_counter :: "(int, int) object store" where
  "shared_counter =
     \<lparr>objs = [0 \<mapsto> Callable 10, 1 \<mapsto> Generating_iterator \<lparr>val = 0, generator = 0\<rparr>],
      fresh = 2\<rparr>"

text \<open>
  \<open>auto c = a;\<close> for the generating iterator \<open>a\<close>: the new object and the store with it.
  \<open>state_of x\<close> reads the object \<open>x\<close> in the store that a sequence of operations leaves.
\<close>

definition copy_construct_generating ::
  "nat \<Rightarrow> ('v, 'c) object store \<Rightarrow> (nat \<times> ('v, 'c) object store) option" where
  "copy_construct_generating a \<sigma> =
     (case objs \<sigma> a of
        Some (Generating_iterator it) \<Rightarrow>
          Some (construct (Generating_iterator (GeneratingIterImpl_copy it)) \<sigma>)
      | _ \<Rightarrow> None)"

definition state_of :: "nat \<Rightarrow> 'p store option \<Rightarrow> 'p option" where
  "state_of x r = (case r of None \<Rightarrow> None | Some \<sigma> \<Rightarrow> objs \<sigma> x)"

text \<open>
  A primitive that only records the arguments of the calls of its \<open>advance\<close>, and the store
  with one \<open>float_step_iterator\<close> at position 0 with the step 1.
\<close>

definition recording_advance :: "int \<Rightarrow> int list \<Rightarrow> int list option" where
  "recording_advance n calls = Some (calls @ [n])"

definition one_float_step :: "FloatStepIterImpl store" where
  "one_float_step = \<lparr>objs = [0 \<mapsto> FloatStepIterImpl_init 0 (Finite 1)], fresh = 1\<rparr>"


section \<open>Facts of the arithmetic\<close>

lemma round_to_float_not_NaN: "round_to_float x \<noteq> NaN"
  by (simp add: round_to_float_def Let_def)

lemma feq_iff: "feq x y \<longleftrightarrow> x = y \<and> x \<noteq> NaN"
  by (cases x; cases y) simp_all

lemma fdiv_zero: "fdiv x (Finite 0) \<in> {PInf, NInf, NaN}"
  by (cases x) simp_all

text \<open>The exponent that \<open>round_to_float\<close> works with is the binary exponent.\<close>

lemma ilog2_nonneg: "0 \<le> ilog2 n"
proof (induction n rule: ilog2.induct)
  case (1 n)
  then show ?case
    by (subst ilog2.simps) simp
qed

lemma ilog2_bounds:
  "1 \<le> n \<Longrightarrow> 2 ^ nat (ilog2 n) \<le> n \<and> n < 2 * 2 ^ nat (ilog2 n)"
proof (induction n rule: ilog2.induct)
  case (1 n)
  show ?case
  proof (cases "n < 2")
    case True
    with 1 have "n = 1" by simp
    then show ?thesis by (subst (1 2) ilog2.simps) simp
  next
    case False
    then have h: "1 \<le> n div 2" by simp
    have e: "ilog2 n = 1 + ilog2 (n div 2)"
      using False by (subst ilog2.simps) simp
    have p: "(2::int) ^ nat (1 + ilog2 (n div 2)) = 2 * 2 ^ nat (ilog2 (n div 2))"
      using ilog2_nonneg [of "n div 2"] by (simp add: nat_add_distrib)
    from 1(1) [OF False h] have "2 ^ nat (ilog2 (n div 2)) \<le> n div 2"
      and "n div 2 < 2 * 2 ^ nat (ilog2 (n div 2))" by simp_all
    then show ?thesis
      unfolding e p by linarith
  qed
qed

lemma pow2_pos: "0 < pow2 e"
  by (simp add: pow2_def)

lemma pow2_Suc: "pow2 (e + 1) = 2 * pow2 e"
proof (cases "0 \<le> e")
  case True
  then show ?thesis by (simp add: pow2_def nat_add_distrib)
next
  case False
  then have "nat (- e) = Suc (nat (- (e + 1)))" by simp
  with False show ?thesis
    by (cases "e = - 1") (simp_all add: pow2_def)
qed

lemma pow2_add: "pow2 (a + int d) = 2 ^ d * pow2 a"
proof (induction d)
  case 0
  show ?case by simp
next
  case (Suc d)
  have "a + int (Suc d) = (a + int d) + 1"
    by simp
  then have "pow2 (a + int (Suc d)) = pow2 ((a + int d) + 1)"
    by (rule arg_cong)
  also have "\<dots> = 2 * pow2 (a + int d)"
    by (rule pow2_Suc)
  finally show ?case
    using Suc by simp
qed

lemma pow2_mono:
  assumes "a \<le> b"
  shows "pow2 a \<le> pow2 b"
proof -
  have "pow2 b = 2 ^ nat (b - a) * pow2 a"
    using pow2_add [of a "nat (b - a)"] assms by simp
  moreover have "(1::rat) \<le> 2 ^ nat (b - a)"
    by simp
  ultimately show ?thesis
    using pow2_pos [of a] by (simp add: mult_le_cancel_right1)
qed

text \<open>\<open>floor_log2 x\<close> is the \<open>e\<close> with \<open>2^e \<le> x < 2^(e+1)\<close>.\<close>

lemma floor_log2_bounds:
  assumes "0 < x"
  shows "pow2 (floor_log2 x) \<le> x \<and> x < pow2 (floor_log2 x + 1)"
proof (cases "1 \<le> x")
  case True
  then have m: "1 \<le> \<lfloor>x\<rfloor>" by simp
  define k where "k = nat (ilog2 \<lfloor>x\<rfloor>)"
  from ilog2_bounds [OF m] have lo: "2 ^ k \<le> \<lfloor>x\<rfloor>" and hi: "\<lfloor>x\<rfloor> < 2 * 2 ^ k"
    by (simp_all add: k_def)
  have "of_int (2 ^ k) \<le> x"
    using lo by (simp add: le_floor_iff del: of_int_power)
  moreover have "x < of_int (2 * 2 ^ k)"
    using hi by (simp add: floor_less_iff del: of_int_power of_int_mult)
  ultimately show ?thesis
    using True ilog2_nonneg [of "\<lfloor>x\<rfloor>"]
    by (simp add: floor_log2_def pow2_Suc) (simp add: pow2_def k_def)
next
  case False
  define y where "y = 1 / x"
  have y: "1 < y" using False assms by (simp add: y_def)
  then have m: "1 \<le> \<lceil>y\<rceil> - 1" by (simp add: less_ceiling_iff)
  define k where "k = nat (ilog2 (\<lceil>y\<rceil> - 1))"
  from ilog2_bounds [OF m] have lo: "2 ^ k \<le> \<lceil>y\<rceil> - 1" and hi: "\<lceil>y\<rceil> - 1 < 2 * 2 ^ k"
    by (simp_all add: k_def)
  have "of_int (2 ^ k) < y"
    using lo by (simp add: less_ceiling_iff del: of_int_power)
  moreover have "y \<le> of_int (2 * 2 ^ k)"
    using hi by (simp add: ceiling_le_iff [symmetric] del: of_int_power of_int_mult)
  ultimately have a: "2 ^ k < y" and b: "y \<le> 2 * 2 ^ k"
    by simp_all
  have e: "floor_log2 x = - (1 + int k)"
    using False ilog2_nonneg [of "\<lceil>y\<rceil> - 1"] by (simp add: floor_log2_def y_def k_def)
  have p1: "pow2 (- (1 + int k)) = 1 / (2 * 2 ^ k)"
    by (simp add: pow2_def nat_add_distrib)
  have p2: "pow2 (- (1 + int k) + 1) = 1 / 2 ^ k"
    by (simp add: pow2_def)
  have "1 / (2 * 2 ^ k) \<le> x"
    using b assms by (simp add: y_def field_simps)
  moreover have "x < 1 / 2 ^ k"
    using a assms by (simp add: y_def field_simps)
  ultimately show ?thesis
    unfolding e p1 p2 by simp
qed

lemma round_even_nonneg: "0 \<le> z \<Longrightarrow> 0 \<le> round_even z"
  by (simp add: round_even_def Let_def)

lemma round_even_le: "z \<le> of_int N \<Longrightarrow> round_even z \<le> N"
proof -
  assume z: "z \<le> of_int N"
  then have f: "\<lfloor>z\<rfloor> \<le> N" by (simp add: floor_le_iff)
  show ?thesis
  proof (cases "\<lfloor>z\<rfloor> = N")
    case True
    with z have "z - of_int \<lfloor>z\<rfloor> \<le> 0" by simp
    with True show ?thesis by (simp add: round_even_def Let_def)
  next
    case False
    with f have "\<lfloor>z\<rfloor> + 1 \<le> N" by simp
    with f show ?thesis by (simp add: round_even_def Let_def)
  qed
qed

text \<open>Rounding does not leave the interval \<open>[0, 1]\<close>, whose ends are representable.\<close>

lemma round_unit_interval:
  assumes "0 \<le> x" and "x \<le> 1"
  shows "\<exists>y. round_to_float x = Finite y \<and> 0 \<le> y \<and> y \<le> 1"
proof (cases "x = 0")
  case True
  then show ?thesis by (simp add: round_to_float_def)
next
  case False
  with assms have pos: "0 < x" by simp
  define e where "e = max (floor_log2 \<bar>x\<bar>) (- 126)"
  have "floor_log2 x \<le> 0"
  proof (rule ccontr)
    assume "\<not> floor_log2 x \<le> 0"
    then have "1 \<le> floor_log2 x" by simp
    then have "pow2 1 \<le> pow2 (floor_log2 x)"
      by (rule pow2_mono)
    moreover have "pow2 1 = 2"
      by (simp add: pow2_def)
    ultimately show False
      using floor_log2_bounds [OF pos] assms by simp
  qed
  then have e: "e \<le> 0" using pos by (simp add: e_def)
  define k where "k = nat (23 - e)"
  have q: "pow2 (e - 23) = 1 / 2 ^ k"
    using e by (simp add: pow2_def k_def)
  define m where "m = round_even (x / pow2 (e - 23))"
  have xm: "x / pow2 (e - 23) = x * 2 ^ k"
    by (simp add: q)
  have m0: "0 \<le> m"
    unfolding m_def xm using pos by (intro round_even_nonneg) simp
  have "x * 2 ^ k \<le> of_int (2 ^ k)"
    using assms by (simp add: mult_left_le_one_le)
  then have m1: "m \<le> 2 ^ k"
    unfolding m_def xm by (rule round_even_le)
  define y where "y = of_int m * pow2 (e - 23)"
  have y0: "0 \<le> y" using m0 by (simp add: y_def q)
  have "(of_int m :: rat) \<le> 2 ^ k"
    using m1 by (metis of_int_le_iff of_int_numeral of_int_power)
  then have y1: "y \<le> 1" by (simp add: y_def q field_simps)
  have "round_to_float x = (if 2 ^ 128 \<le> \<bar>y\<bar> then (if 0 < x then PInf else NInf) else Finite y)"
    using False by (simp add: round_to_float_def Let_def y_def m_def e_def)
  moreover have "\<bar>y\<bar> < 2 ^ 128"
    using y0 y1 by simp
  ultimately show ?thesis
    using y0 y1 by simp
qed

lemma trunc_frac: "- 1 < x - of_int (trunc x) \<and> x - of_int (trunc x) < 1"
  by (simp add: trunc_def) linarith

text \<open>Values of binary32 arithmetic that the scenarios below meet.\<close>

lemma float_of_int_1: "float_of_int 1 = Finite 1"
  by code_simp

lemma round_5_2: "round_to_float (5 / 2) = Finite (5 / 2)"
  by code_simp

lemma round_3: "round_to_float 3 = Finite 3"
  by code_simp

lemma modf_5_2: "modf (Finite (5 / 2)) = (Finite (1 / 2), Finite 2)"
  by code_simp

lemma modf_3: "modf (Finite 3) = (Finite 0, Finite 3)"
  by code_simp

lemma to_ptrdiff_2: "to_ptrdiff (Finite 2) = Some 2"
  by code_simp

lemma to_ptrdiff_3: "to_ptrdiff (Finite 3) = Some 3"
  by code_simp

text \<open>
  Rounding agrees with binary32 on known values: \<open>0.1f\<close> is \<open>13421773 / 2^27\<close>, the
  integers above \<open>2^24\<close> are two apart, the largest finite value is \<open>2^128 - 2^104\<close> and
  half a step above it overflows, the smallest subnormal is \<open>2^-149\<close>.
\<close>

lemma round_to_float_tenth: "round_to_float (1 / 10) = Finite (13421773 / 2 ^ 27)"
  by code_simp

lemma round_to_float_2_24: "round_to_float 16777217 = Finite 16777216
  \<and> round_to_float 16777219 = Finite 16777220"
  by code_simp

lemma round_to_float_overflow: "round_to_float (2 ^ 128 - 2 ^ 103) = PInf
  \<and> round_to_float (2 ^ 128 - 2 ^ 103 - 1) = Finite (2 ^ 128 - 2 ^ 104)"
  by code_simp

lemma round_to_float_subnormal: "round_to_float (1 / 2 ^ 149) = Finite (1 / 2 ^ 149)
  \<and> round_to_float (1 / 2 ^ 150) = Finite 0
  \<and> round_to_float (3 / 2 ^ 150) = Finite (1 / 2 ^ 148)"
  by code_simp


section \<open>The fractional-step primitive: properties\<close>

text \<open>
  The error of a primitive is never a NaN: the constructor sets it to zero and an
  \<open>advance\<close> that has defined behaviour leaves a number.
\<close>

lemma init_error_not_NaN: "error (FloatStepIterImpl_init p s) \<noteq> NaN"
  by (simp add: FloatStepIterImpl_init_def)

lemma advance_error_not_NaN:
  assumes "FloatStepIterImpl_advance n this = Some this'"
  shows "error this' \<noteq> NaN"
proof (cases "fadd (error this) (fmul (step this) (float_of_int n))")
  case (Finite x)
  with assms show ?thesis
    by (auto simp: FloatStepIterImpl_advance_def Let_def round_to_float_not_NaN
             split: if_splits option.splits)
next
  case PInf
  with assms show ?thesis
    by (simp add: FloatStepIterImpl_advance_def fsub_def)
next
  case NInf
  with assms show ?thesis
    by (simp add: FloatStepIterImpl_advance_def fsub_def)
next
  case NaN
  with assms show ?thesis
    by (simp add: FloatStepIterImpl_advance_def)
qed

text \<open>
  After an \<open>advance\<close> with defined behaviour the error is a number of the closed interval
  \<open>[0, 1]\<close>, whatever the state before was.
\<close>

lemma advance_error_range:
  assumes "FloatStepIterImpl_advance n this = Some this'"
  shows "\<exists>e. error this' = Finite e \<and> 0 \<le> e \<and> e \<le> 1"
proof (cases "fadd (error this) (fmul (step this) (float_of_int n))")
  case (Finite x)
  define frac where "frac = x - of_int (trunc x)"
  have m: "modf (Finite x) = (Finite frac, Finite (of_int (trunc x)))"
    by (simp add: frac_def)
  have r: "- 1 < frac" "frac < 1"
    using trunc_frac [of x] by (simp_all add: frac_def)
  show ?thesis
  proof (cases "frac < 0")
    case True
    then have "error this' = round_to_float (frac + 1)"
      using assms Finite m
      by (auto simp: FloatStepIterImpl_advance_def simp del: modf.simps split: option.splits)
    moreover have "0 \<le> frac + 1" "frac + 1 \<le> 1"
      using r True by simp_all
    ultimately show ?thesis
      using round_unit_interval [of "frac + 1"] by simp
  next
    case False
    then have "error this' = Finite frac"
      using assms Finite m
      by (auto simp: FloatStepIterImpl_advance_def simp del: modf.simps split: option.splits)
    with False r show ?thesis by simp
  qed
next
  case PInf
  with assms show ?thesis
    by (simp add: FloatStepIterImpl_advance_def fsub_def)
next
  case NInf
  with assms show ?thesis
    by (simp add: FloatStepIterImpl_advance_def fsub_def)
next
  case NaN
  with assms show ?thesis
    by (simp add: FloatStepIterImpl_advance_def)
qed

lemma advance_from_whole:
  "FloatStepIterImpl_advance 1 \<lparr>iter = p, step = Finite (5 / 2), error = Finite 0\<rparr>
     = Some \<lparr>iter = p + 2, step = Finite (5 / 2), error = Finite (1 / 2)\<rparr>"
  by (simp add: FloatStepIterImpl_advance_def float_of_int_1 round_5_2 modf_5_2 to_ptrdiff_2
        del: modf.simps to_ptrdiff.simps)

lemma advance_from_half:
  "FloatStepIterImpl_advance 1 \<lparr>iter = p, step = Finite (5 / 2), error = Finite (1 / 2)\<rparr>
     = Some \<lparr>iter = p + 3, step = Finite (5 / 2), error = Finite 0\<rparr>"
  by (simp add: FloatStepIterImpl_advance_def float_of_int_1 round_5_2 round_3 modf_3 to_ptrdiff_3
        del: modf.simps to_ptrdiff.simps)

lemma advance_times_5_2:
  "advance_times k \<lparr>iter = p, step = Finite (5 / 2), error = Finite 0\<rparr>
     = Some \<lparr>iter = p + (5 * int k) div 2, step = Finite (5 / 2),
             error = Finite (if even k then 0 else 1 / 2)\<rparr>
   \<and> advance_times k \<lparr>iter = p, step = Finite (5 / 2), error = Finite (1 / 2)\<rparr>
     = Some \<lparr>iter = p + (5 * int k + 1) div 2, step = Finite (5 / 2),
             error = Finite (if even k then 1 / 2 else 0)\<rparr>"
proof (induction k arbitrary: p)
  case 0
  show ?case by simp
next
  case (Suc k)
  have a: "p + 2 + (5 * int k + 1) div 2 = p + (5 * int (Suc k)) div 2"
    by simp
  have b: "p + 3 + (5 * int k) div 2 = p + (5 * int (Suc k) + 1) div 2"
    by simp
  show ?case
    using Suc.IH [of "p + 2"] Suc.IH [of "p + 3"] a b
    by (simp add: advance_from_whole advance_from_half)
qed

text \<open>
  One \<open>advance(n)\<close> and \<open>n\<close> single steps, or \<open>d\<close> and the \<open>difference\<close> after \<open>advance(d)\<close>, agree
  only as far as the rounding lets them. With the step \<open>0.1f\<close>, \<open>advance(10)\<close> ends with the
  error 0 and ten single steps end with the error \<open>2^-23\<close>, both at position 1; after
  \<open>advance(-2)\<close> the quotient in \<open>difference\<close> is just short of \<open>-2\<close> and is truncated to
  \<open>-1\<close>.
\<close>

lemma tenth_one_advance_or_ten:
  "FloatStepIterImpl_advance 10 (FloatStepIterImpl_init 0 (Finite (13421773 / 2 ^ 27)))
     = Some \<lparr>iter = 1, step = Finite (13421773 / 2 ^ 27), error = Finite 0\<rparr>
   \<and> advance_times 10 (FloatStepIterImpl_init 0 (Finite (13421773 / 2 ^ 27)))
     = Some \<lparr>iter = 1, step = Finite (13421773 / 2 ^ 27), error = Finite (1 / 2 ^ 23)\<rparr>"
  by code_simp

lemma tenth_round_trip:
  "FloatStepIterImpl_advance (- 2) (FloatStepIterImpl_init 0 (Finite (13421773 / 2 ^ 27)))
     = Some \<lparr>iter = - 1, step = Finite (13421773 / 2 ^ 27), error = Finite (13421773 / 2 ^ 24)\<rparr>
   \<and> FloatStepIterImpl_difference
        \<lparr>iter = - 1, step = Finite (13421773 / 2 ^ 27), error = Finite (13421773 / 2 ^ 24)\<rparr>
        (FloatStepIterImpl_init 0 (Finite (13421773 / 2 ^ 27)))
     = Some (- 1)"
  by code_simp

text \<open>
  C2 (fails on the code). The claim: after every \<open>advance(n)\<close> the error is again in
  \<open>[0, 1)\<close>, for any step. From position 0 and error 0 with the step \<open>-2^-30\<close>, \<open>advance(1)\<close>
  splits the sum \<open>-2^-30\<close> into the integral part \<open>0\<close> and the fraction \<open>-2^-30\<close>; the
  fraction is negative, so the code adds 1 to it, and \<open>1 - 2^-30\<close> rounds to \<open>1\<close> in
  binary32. The error is left at exactly 1, outside \<open>[0, 1)\<close>. (It never goes beyond:
  \<open>advance_error_range\<close>.)
\<close>

theorem advance_error_reaches_one:
  "FloatStepIterImpl_advance 1 (FloatStepIterImpl_init 0 (Finite (- (1 / 2 ^ 30))))
     = Some \<lparr>iter = - 1, step = Finite (- (1 / 2 ^ 30)), error = Finite 1\<rparr>"
  by code_simp

text \<open>
  C5 (amended). Nothing validates the step. The constructor stores a zero step as it
  is, and \<open>difference\<close> on a primitive whose step is zero divides by zero: the quotient
  is an infinity or a NaN, and its conversion to the integer result has undefined
  behaviour. There is no error value such as \<open>InvalidStep\<close>.
\<close>

theorem zero_step_difference_undefined:
  "step (FloatStepIterImpl_init p (Finite 0)) = Finite 0
   \<and> (step a = Finite 0 \<longrightarrow>
        fdiv (fadd (float_of_int (iter a - iter b)) (fsub (error a) (error b))) (step a)
          \<in> {PInf, NInf, NaN}
        \<and> FloatStepIterImpl_difference a b = None)"
proof -
  have "FloatStepIterImpl_difference a b = None" if "step a = Finite 0"
    using fdiv_zero [of "fadd (float_of_int (iter a - iter b)) (fsub (error a) (error b))"] that
    by (auto simp: FloatStepIterImpl_difference_def)
  then show ?thesis
    using fdiv_zero by (simp add: FloatStepIterImpl_init_def)
qed

text \<open>C5, at the primitives at positions 7 and 2 built with the step 0.\<close>

theorem zero_step_difference_undefined_witness:
  "step (FloatStepIterImpl_init 7 (Finite 0)) = Finite 0
   \<and> FloatStepIterImpl_difference (FloatStepIterImpl_init 7 (Finite 0))
        (FloatStepIterImpl_init 2 (Finite 0)) = None"
  using zero_step_difference_undefined
    [of 7 "FloatStepIterImpl_init 7 (Finite 0)" "FloatStepIterImpl_init 2 (Finite 0)"]
  by (simp add: FloatStepIterImpl_init_def)

text \<open>
  C5 as stated fails: the constructor accepts the step 0, \<open>advance(1)\<close> on that primitive
  returns normally, and the division inside \<open>difference\<close> yields an infinity.
\<close>

theorem zero_step_accepted:
  "step (FloatStepIterImpl_init 0 (Finite 0)) = Finite 0
   \<and> FloatStepIterImpl_advance 1 (FloatStepIterImpl_init 0 (Finite 0))
       = Some (FloatStepIterImpl_init 0 (Finite 0))
   \<and> fdiv (fadd (float_of_int (1 - 0)) (fsub (Finite 0) (Finite 0))) (Finite 0) = PInf
   \<and> FloatStepIterImpl_difference (FloatStepIterImpl_init 1 (Finite 0))
        (FloatStepIterImpl_init 0 (Finite 0)) = None"
  by code_simp

text \<open>
  C6. Equality ignores the step: whatever the steps \<open>s\<close> and \<open>t\<close> of two primitives are,
  \<open>equal\<close> returns true exactly when their positions and their errors are the same. The
  error of a primitive is a number (\<open>init_error_not_NaN\<close>, \<open>advance_error_not_NaN\<close>).
\<close>

theorem equal_ignores_step:
  assumes "error a \<noteq> NaN"
  shows "FloatStepIterImpl_equal (a\<lparr>step := s\<rparr>) (b\<lparr>step := t\<rparr>)
           \<longleftrightarrow> iter a = iter b \<and> error a = error b"
  using assms by (auto simp: FloatStepIterImpl_equal_def feq_iff)

text \<open>
  C6, at position 3: equal against the step \<open>2.5\<close> in place of \<open>1\<close>, different against
  position 4.
\<close>

theorem equal_ignores_step_witness:
  "error (FloatStepIterImpl_init 3 (Finite 1)) \<noteq> NaN
   \<and> FloatStepIterImpl_equal (FloatStepIterImpl_init 3 (Finite 1))
        (FloatStepIterImpl_init 3 (Finite (5 / 2)))
   \<and> \<not> FloatStepIterImpl_equal (FloatStepIterImpl_init 3 (Finite 1))
        (FloatStepIterImpl_init 4 (Finite 1))"
  using equal_ignores_step [where a = "FloatStepIterImpl_init 3 (Finite 1)" and s = "Finite 1"
      and b = "FloatStepIterImpl_init 3 (Finite (5 / 2))" and t = "Finite (5 / 2)"]
    equal_ignores_step [where a = "FloatStepIterImpl_init 3 (Finite 1)" and s = "Finite 1"
      and b = "FloatStepIterImpl_init 4 (Finite 1)" and t = "Finite 1"]
  by (simp add: FloatStepIterImpl_init_def)

text \<open>
  C8. With the step \<open>2.5\<close> from position 0 and error 0, \<open>k\<close> single-step advances reach
  the position \<open>\<lfloor>5k / 2\<rfloor>\<close>, that is 0, 2, 5, 7, 10, ..., with the error exactly 0 after an
  even number of steps and exactly \<open>.5\<close> after an odd number.
\<close>

theorem step_5_2_scenario:
  "advance_times k (FloatStepIterImpl_init 0 (Finite (5 / 2)))
     = Some \<lparr>iter = (5 * int k) div 2, step = Finite (5 / 2),
             error = Finite (if even k then 0 else 1 / 2)\<rparr>
   \<and> map (\<lambda>k. map_option (\<lambda>r. (iter r, error r))
                (advance_times k (FloatStepIterImpl_init 0 (Finite (5 / 2))))) [0, 1, 2, 3, 4]
     = [Some (0, Finite 0), Some (2, Finite (1 / 2)), Some (5, Finite 0),
        Some (7, Finite (1 / 2)), Some (10, Finite 0)]"
  using advance_times_5_2 [of k 0] advance_times_5_2 [of 0 0] advance_times_5_2 [of 1 0]
    advance_times_5_2 [of 2 0] advance_times_5_2 [of 3 0] advance_times_5_2 [of 4 0]
  by (simp add: FloatStepIterImpl_init_def)


section \<open>The generating primitive: properties\<close>

lemma loop_funpow:
  "i \<le> n \<Longrightarrow> GeneratingIterImpl_loop invoke i n this
     = (invoke_into_val invoke ^^ nat (n - i)) this"
proof (induction invoke i n this rule: GeneratingIterImpl_loop.induct)
  case (1 invoke i n this)
  show ?case
  proof (cases "i < n")
    case True
    then have "nat (n - i) = Suc (nat (n - (i + 1)))" by simp
    with True 1 show ?thesis
      by (subst GeneratingIterImpl_loop.simps) (simp add: funpow_swap1)
  next
    case False
    with 1 show ?thesis
      by (subst GeneratingIterImpl_loop.simps) simp
  qed
qed

lemma loop_done: "n \<le> i \<Longrightarrow> GeneratingIterImpl_loop invoke i n this = this"
  by (subst GeneratingIterImpl_loop.simps) simp

lemma funpow_invoke_into_val:
  "(invoke_into_val invoke ^^ Suc k) this
     = \<lparr>val = last (produced invoke (Suc k) (generator this)),
        generator = producer_after invoke (Suc k) (generator this)\<rparr>"
proof (induction k arbitrary: this)
  case 0
  show ?case by (simp add: invoke_into_val_def split_beta)
next
  case (Suc k)
  have "(invoke_into_val invoke ^^ Suc (Suc k)) this
          = (invoke_into_val invoke ^^ Suc k) (invoke_into_val invoke this)"
    by (simp only: funpow_Suc_right o_apply)
  also have "\<dots> = \<lparr>val = last (produced invoke (Suc k) (generator (invoke_into_val invoke this))),
        generator = producer_after invoke (Suc k) (generator (invoke_into_val invoke this))\<rparr>"
    by (rule Suc.IH)
  also have "generator (invoke_into_val invoke this) = snd (invoke (generator this))"
    by (simp add: invoke_into_val_def split_beta)
  finally show ?case by simp
qed

lemma length_produced: "length (produced invoke k g) = k"
  by (induction k arbitrary: g) simp_all

lemma producer_after_counted:
  "producer_after (counted invoke) k (g, c) = (producer_after invoke k g, c + k)"
  by (induction k arbitrary: g c) (simp_all add: counted_def split_beta)

lemma advance_positive:
  assumes "1 \<le> n"
  shows "GeneratingIterImpl_advance invoke n this
           = \<lparr>val = last (produced invoke (nat n) (generator this)),
              generator = producer_after invoke (nat n) (generator this)\<rparr>"
proof -
  from assms obtain k where k: "nat n = Suc k"
    by (cases "nat n") auto
  have "GeneratingIterImpl_advance invoke n this = (invoke_into_val invoke ^^ Suc k) this"
    using assms k by (simp add: GeneratingIterImpl_advance_def loop_funpow del: funpow.simps)
  then show ?thesis
    using k by (simp only: funpow_invoke_into_val)
qed

text \<open>
  C7. For \<open>n \<ge> 1\<close>, \<open>advance(n)\<close> leaves in \<open>val\<close> the last of the \<open>n\<close> values that \<open>n\<close>
  invocations of the producer yield one after the other, and the producer in the state
  after these \<open>n\<close> invocations; a producer that counts its invocations has counted
  exactly \<open>n\<close> more. \<open>dereference()\<close> then returns that \<open>n\<close>-th value and leaves the primitive,
  the producer with it, as it is, so a second \<open>dereference()\<close> returns the same.
\<close>

theorem advance_invokes_n_times:
  assumes "1 \<le> n"
  shows "GeneratingIterImpl_advance invoke n this
           = \<lparr>val = last (produced invoke (nat n) (generator this)),
              generator = producer_after invoke (nat n) (generator this)\<rparr>
         \<and> length (produced invoke (nat n) (generator this)) = nat n
         \<and> generator (GeneratingIterImpl_advance (counted invoke) n \<lparr>val = v, generator = (g, c)\<rparr>)
             = (producer_after invoke (nat n) g, c + nat n)
         \<and> GeneratingIterImpl_dereference (GeneratingIterImpl_advance invoke n this)
             = (last (produced invoke (nat n) (generator this)),
                GeneratingIterImpl_advance invoke n this)
         \<and> GeneratingIterImpl_dereference
               (snd (GeneratingIterImpl_dereference (GeneratingIterImpl_advance invoke n this)))
             = GeneratingIterImpl_dereference (GeneratingIterImpl_advance invoke n this)"
  using assms
  by (simp add: advance_positive length_produced producer_after_counted
        GeneratingIterImpl_dereference_def)

text \<open>
  C7, at the counter that stands at 10: three invocations yield 10, 11 and 12, and
  \<open>advance(3)\<close> keeps 12.
\<close>

theorem advance_invokes_n_times_witness:
  "(1::int) \<le> 3
   \<and> GeneratingIterImpl_advance counter 3 \<lparr>val = 0, generator = 10\<rparr>
       = \<lparr>val = 12, generator = 13\<rparr>
   \<and> generator (GeneratingIterImpl_advance (counted counter) 3 \<lparr>val = 0, generator = (10, 0)\<rparr>)
       = (13, 3)"
  using advance_invokes_n_times [where n = 3 and invoke = counter
      and this = "\<lparr>val = 0, generator = 10\<rparr>" and v = 0 and g = 10 and c = 0]
  by (simp add: counter_def numeral_3_eq_3)

text \<open>
  C10. For \<open>n \<le> 0\<close>, \<open>advance(n)\<close> returns with the primitive unchanged: the stored value and
  the producer are the same, and a producer that counts its invocations has counted
  none.
\<close>

theorem advance_nonpositive_noop:
  assumes "n \<le> 0"
  shows "GeneratingIterImpl_advance invoke n this = this
         \<and> GeneratingIterImpl_advance (counted invoke) n \<lparr>val = v, generator = (g, c)\<rparr>
             = \<lparr>val = v, generator = (g, c)\<rparr>"
  using assms by (simp add: GeneratingIterImpl_advance_def loop_done)

text \<open>C10, at \<open>n = -2\<close>.\<close>

theorem advance_nonpositive_noop_witness:
  "(- 2::int) \<le> 0
   \<and> GeneratingIterImpl_advance counter (- 2) \<lparr>val = 5, generator = 10\<rparr>
       = \<lparr>val = 5, generator = 10\<rparr>"
  using advance_nonpositive_noop [where n = "- 2" and invoke = counter
      and this = "\<lparr>val = 5, generator = 10\<rparr>"]
  by simp


section \<open>The iterator adaptor: properties\<close>

lemma int_of_ptrdiff_1: "int_of_ptrdiff 1 = 1"
  by (simp add: int_of_ptrdiff_def)

lemma int_of_ptrdiff_m1: "int_of_ptrdiff (- 1) = - 1"
  by (simp add: int_of_ptrdiff_def)

lemma float_step_advance_1:
  "float_step_advance 1 \<lparr>iter = 0, step = Finite 1, error = Finite 0\<rparr>
     = Some \<lparr>iter = 1, step = Finite 1, error = Finite 0\<rparr>"
  unfolding float_step_advance_def int_of_ptrdiff_1 by code_simp

lemma float_step_advance_m1:
  "float_step_advance (- 1) \<lparr>iter = 0, step = Finite 1, error = Finite 0\<rparr>
     = Some \<lparr>iter = - 1, step = Finite 1, error = Finite 0\<rparr>"
  unfolding float_step_advance_def int_of_ptrdiff_m1 by code_simp

lemma FloatStepIterImpl_copy_id: "FloatStepIterImpl_copy r = r"
  by (simp add: FloatStepIterImpl_copy_def)

lemma fresh_unused: "store_ok \<sigma> \<Longrightarrow> objs \<sigma> (fresh \<sigma>) = None"
  by (auto simp: store_ok_def)

lemma operator_plus_eq:
  assumes "store_ok \<sigma>" and "objs \<sigma> this = Some a"
  shows "operator_plus copy adv this d \<sigma>
           = map_option (\<lambda>v. (v, \<sigma>\<lparr>fresh := Suc (fresh \<sigma>)\<rparr>)) (adv d (copy a))"
proof -
  have "(objs \<sigma>)(fresh \<sigma> := None) = objs \<sigma>"
    using fresh_unused [OF assms(1)] by (rule fun_upd_idem)
  then show ?thesis
    using assms(2)
    by (simp add: operator_plus_def construct_def call_def destroy_def split: option.splits)
qed

lemma operator_minus_eq:
  "operator_minus copy adv this d \<sigma>
     = (if d = - (2 ^ 63) then None else operator_plus copy adv this (- d) \<sigma>)"
  by (simp add: operator_minus_def operator_plus_def ptrdiff_neg_def split: option.splits prod.splits)

lemma int_of_ptrdiff_in_range: "- (2 ^ 31) \<le> d \<Longrightarrow> d < 2 ^ 31 \<Longrightarrow> int_of_ptrdiff d = d"
  by (simp add: int_of_ptrdiff_def signed_take_bit_int_eq_self)

lemma copy_then_call:
  assumes "store_ok \<sigma>" and "objs \<sigma> this = Some a"
    and "construct v \<sigma> = (c, \<sigma>1)" and "call f c \<sigma>1 = Some \<sigma>2"
  shows "c \<noteq> this \<and> objs \<sigma>1 c = Some v \<and> objs \<sigma>2 c = f v
       \<and> (\<forall>x. x \<noteq> c \<longrightarrow> objs \<sigma>2 x = objs \<sigma> x)"
proof -
  have "fresh \<sigma> \<noteq> this"
    using assms(1,2) by (auto simp: store_ok_def)
  then show ?thesis
    using assms(3,4) by (auto simp: construct_def call_def split: option.splits)
qed

text \<open>
  C1 (fails on the code). The claim: the post-increment form returns a copy taken before
  advancing, and the pre-increment form the advanced iterator itself; the same for the
  decrement. The code has the two bodies the other way round. On an iterator at position
  0 with the step 1, \<open>operator++(int)\<close>, the postfix form, returns the reference to the
  iterator itself, which is at position 1; \<open>operator++()\<close>, the prefix form, returns a
  copy at position 0; \<open>operator--(int)\<close> and \<open>operator--()\<close> likewise. Each form does call
  \<open>advance\<close> once, with 1: the recording primitive holds \<open>[1]\<close> afterwards.
\<close>

theorem increment_forms_swapped:
  "map_option (\<lambda>(r, \<sigma>). (r, objs \<sigma> r)) (operator_inc_int float_step_advance 0 one_float_step)
     = Some (0, Some \<lparr>iter = 1, step = Finite 1, error = Finite 0\<rparr>)
   \<and> map_option (\<lambda>(v, \<sigma>). (v, objs \<sigma> 0))
        (operator_inc FloatStepIterImpl_copy float_step_advance 0 one_float_step)
     = Some (\<lparr>iter = 0, step = Finite 1, error = Finite 0\<rparr>,
             Some \<lparr>iter = 1, step = Finite 1, error = Finite 0\<rparr>)
   \<and> map_option (\<lambda>(r, \<sigma>). (r, objs \<sigma> r)) (operator_dec_int float_step_advance 0 one_float_step)
     = Some (0, Some \<lparr>iter = - 1, step = Finite 1, error = Finite 0\<rparr>)
   \<and> map_option (\<lambda>(v, \<sigma>). (v, objs \<sigma> 0))
        (operator_dec FloatStepIterImpl_copy float_step_advance 0 one_float_step)
     = Some (\<lparr>iter = 0, step = Finite 1, error = Finite 0\<rparr>,
             Some \<lparr>iter = - 1, step = Finite 1, error = Finite 0\<rparr>)
   \<and> map_option (\<lambda>(r, \<sigma>). objs \<sigma> r)
        (operator_inc_int recording_advance 0 \<lparr>objs = [0 \<mapsto> []], fresh = 1\<rparr>)
     = Some (Some [1])
   \<and> map_option (\<lambda>(v, \<sigma>). objs \<sigma> 0)
        (operator_inc id recording_advance 0 \<lparr>objs = [0 \<mapsto> []], fresh = 1\<rparr>)
     = Some (Some [1])"
  by (simp add: operator_inc_int_def operator_inc_def operator_dec_int_def operator_dec_def
        call_def construct_def destroy_def one_float_step_def float_step_advance_1
        float_step_advance_m1 FloatStepIterImpl_copy_def FloatStepIterImpl_init_def
        recording_advance_def)

lemma ref_advance_once:
  assumes "objs \<sigma> this = Some (Generating_iterator it)"
    and "objs \<sigma> (generator it) = Some (Callable c)"
  shows "GeneratingIterImpl_ref_advance invoke 1 this \<sigma>
     = Some (\<sigma>\<lparr>objs := (objs \<sigma>)(generator it \<mapsto> Callable (snd (invoke c)),
                              this \<mapsto> Generating_iterator (it\<lparr>val := fst (invoke c)\<rparr>))\<rparr>)"
proof -
  have "GeneratingIterImpl_ref_loop invoke 1 1 this \<sigma>' = Some \<sigma>'" for \<sigma>'
    by (subst GeneratingIterImpl_ref_loop.simps) simp
  then show ?thesis
    unfolding GeneratingIterImpl_ref_advance_def
    by (subst GeneratingIterImpl_ref_loop.simps) (simp add: assms invoke_reference_def split_beta)
qed

text \<open>
  C9 (amended). On a live iterator \<open>a\<close>, \<open>a + d\<close> returns the copy of \<open>a\<close>'s primitive advanced
  by \<open>d\<close>, and \<open>a - d\<close> the copy advanced by \<open>-d\<close> when \<open>d\<close> is not the least \<open>std::ptrdiff_t\<close>
  (both return whenever that \<open>advance\<close> does), and every object of the store, \<open>a\<close> among
  them, is afterwards as it was. A copy of an iterator whose primitive holds its members
  by value is another object with the state the copy constructor gives it, and a member
  function that works on the members of the copy leaves every other object as it was.
  \<open>FloatStepIterImpl\<close> is such a primitive: its copy constructor yields the state of its
  argument, position, step and error, so that the copy advances as the original would
  and the original stays. For a \<open>float_step_iterator\<close> the offset reaches \<open>advance\<close> narrowed
  to \<open>int\<close>, which is the offset itself from \<open>-2^31\<close> up to \<open>2^31 - 1\<close>.
\<close>

theorem copies_are_independent:
  assumes "store_ok \<sigma>" and "objs \<sigma> this = Some a"
  shows "map_option fst (operator_plus copy adv this d \<sigma>) = adv d (copy a)
       \<and> (d \<noteq> - (2 ^ 63) \<longrightarrow>
            map_option fst (operator_minus copy adv this d \<sigma>) = adv (- d) (copy a))
       \<and> (\<forall>r \<sigma>'. operator_plus copy adv this d \<sigma> = Some (r, \<sigma>') \<or>
                  operator_minus copy adv this d \<sigma> = Some (r, \<sigma>')
             \<longrightarrow> objs \<sigma>' = objs \<sigma>)
       \<and> (\<forall>c \<sigma>1 f \<sigma>2. construct (copy a) \<sigma> = (c, \<sigma>1) \<and> call f c \<sigma>1 = Some \<sigma>2
             \<longrightarrow> c \<noteq> this \<and> objs \<sigma>1 c = Some (copy a) \<and> objs \<sigma>2 c = f (copy a)
                 \<and> (\<forall>x. x \<noteq> c \<longrightarrow> objs \<sigma>2 x = objs \<sigma> x))
       \<and> FloatStepIterImpl_copy r = r
       \<and> (store_ok \<tau> \<and> objs \<tau> t = Some b \<longrightarrow>
            map_option fst (operator_plus FloatStepIterImpl_copy float_step_advance t d \<tau>)
              = FloatStepIterImpl_advance (int_of_ptrdiff d) b
            \<and> (- (2 ^ 31) \<le> d \<and> d < 2 ^ 31 \<longrightarrow> int_of_ptrdiff d = d)
            \<and> (\<forall>c \<tau>1 n \<tau>2. construct (FloatStepIterImpl_copy b) \<tau> = (c, \<tau>1)
                    \<and> call (float_step_advance n) c \<tau>1 = Some \<tau>2
                 \<longrightarrow> c \<noteq> t \<and> objs \<tau>1 c = Some b \<and> objs \<tau>2 c = float_step_advance n b
                     \<and> objs \<tau>2 t = Some b))"
proof -
  have plus: "map_option fst (operator_plus copy adv this d \<sigma>) = adv d (copy a)" for d
    by (simp add: operator_plus_eq [OF assms] option.map_comp o_def option.map_ident)
  have frame: "objs \<sigma>' = objs \<sigma>"
    if "operator_plus copy adv this d \<sigma> = Some (r, \<sigma>')" for d r \<sigma>'
    using that by (auto simp: operator_plus_eq [OF assms])
  have minus: "d \<noteq> - (2 ^ 63) \<longrightarrow>
      map_option fst (operator_minus copy adv this d \<sigma>) = adv (- d) (copy a)"
    using plus [of "- d"] by (simp add: operator_minus_eq)
  have frame2: "\<forall>r \<sigma>'. operator_plus copy adv this d \<sigma> = Some (r, \<sigma>') \<or>
                  operator_minus copy adv this d \<sigma> = Some (r, \<sigma>')
             \<longrightarrow> objs \<sigma>' = objs \<sigma>"
    using frame by (auto simp: operator_minus_eq split: if_splits)
  have indep: "\<forall>c \<sigma>1 f \<sigma>2. construct (copy a) \<sigma> = (c, \<sigma>1) \<and> call f c \<sigma>1 = Some \<sigma>2
             \<longrightarrow> c \<noteq> this \<and> objs \<sigma>1 c = Some (copy a) \<and> objs \<sigma>2 c = f (copy a)
                 \<and> (\<forall>x. x \<noteq> c \<longrightarrow> objs \<sigma>2 x = objs \<sigma> x)"
    using copy_then_call [OF assms] by blast
  have fs: "store_ok \<tau> \<and> objs \<tau> t = Some b \<longrightarrow>
            map_option fst (operator_plus FloatStepIterImpl_copy float_step_advance t d \<tau>)
              = FloatStepIterImpl_advance (int_of_ptrdiff d) b
            \<and> (- (2 ^ 31) \<le> d \<and> d < 2 ^ 31 \<longrightarrow> int_of_ptrdiff d = d)
            \<and> (\<forall>c \<tau>1 n \<tau>2. construct (FloatStepIterImpl_copy b) \<tau> = (c, \<tau>1)
                    \<and> call (float_step_advance n) c \<tau>1 = Some \<tau>2
                 \<longrightarrow> c \<noteq> t \<and> objs \<tau>1 c = Some b \<and> objs \<tau>2 c = float_step_advance n b
                     \<and> objs \<tau>2 t = Some b)"
  proof (intro impI, elim conjE)
    assume ok: "store_ok \<tau>" and at: "objs \<tau> t = Some b"
    have "map_option fst (operator_plus FloatStepIterImpl_copy float_step_advance t d \<tau>)
              = FloatStepIterImpl_advance (int_of_ptrdiff d) b"
      by (simp add: operator_plus_eq [OF ok at] option.map_comp o_def option.map_ident
            FloatStepIterImpl_copy_id float_step_advance_def)
    moreover have "c \<noteq> t \<and> objs \<tau>1 c = Some b \<and> objs \<tau>2 c = float_step_advance n b
        \<and> objs \<tau>2 t = Some b"
      if "construct (FloatStepIterImpl_copy b) \<tau> = (c, \<tau>1)"
        and "call (float_step_advance n) c \<tau>1 = Some \<tau>2" for c \<tau>1 n \<tau>2
      using copy_then_call [OF ok at that] at by (simp add: FloatStepIterImpl_copy_id)
    ultimately show "map_option fst
          (operator_plus FloatStepIterImpl_copy float_step_advance t d \<tau>)
              = FloatStepIterImpl_advance (int_of_ptrdiff d) b
            \<and> (- (2 ^ 31) \<le> d \<and> d < 2 ^ 31 \<longrightarrow> int_of_ptrdiff d = d)
            \<and> (\<forall>c \<tau>1 n \<tau>2. construct (FloatStepIterImpl_copy b) \<tau> = (c, \<tau>1)
                    \<and> call (float_step_advance n) c \<tau>1 = Some \<tau>2
                 \<longrightarrow> c \<noteq> t \<and> objs \<tau>1 c = Some b \<and> objs \<tau>2 c = float_step_advance n b
                     \<and> objs \<tau>2 t = Some b)"
      using int_of_ptrdiff_in_range [of d] by blast
  qed
  have cp: "FloatStepIterImpl_copy r = r"
    by (rule FloatStepIterImpl_copy_id)
  from plus [of d] minus frame2 indep cp fs show ?thesis
    by (intro conjI)
qed

text \<open>
  C9, on the iterator \<open>a\<close> at position 0 with the step 1: \<open>a + 1\<close> is at position 1, \<open>a - 1\<close>
  at position \<open>-1\<close>, and \<open>a\<close> is still at position 0; the copy of \<open>a\<close>, object 1, advanced by
  1 is at position 1 and \<open>a\<close> is still at position 0.
\<close>

theorem copies_are_independent_witness:
  "store_ok one_float_step
   \<and> objs one_float_step 0 = Some (FloatStepIterImpl_init 0 (Finite 1))
   \<and> (1::int) \<noteq> - (2 ^ 63) \<and> - (2 ^ 31) \<le> (1::int) \<and> (1::int) < 2 ^ 31
   \<and> map_option fst (operator_plus FloatStepIterImpl_copy float_step_advance 0 1 one_float_step)
        = Some \<lparr>iter = 1, step = Finite 1, error = Finite 0\<rparr>
   \<and> map_option fst (operator_minus FloatStepIterImpl_copy float_step_advance 0 1 one_float_step)
        = Some \<lparr>iter = - 1, step = Finite 1, error = Finite 0\<rparr>
   \<and> state_of 0 (map_option snd
        (operator_plus FloatStepIterImpl_copy float_step_advance 0 1 one_float_step))
        = Some (FloatStepIterImpl_init 0 (Finite 1))
   \<and> int_of_ptrdiff 1 = 1
   \<and> construct (FloatStepIterImpl_copy (FloatStepIterImpl_init 0 (Finite 1))) one_float_step
        = (1, snd (construct (FloatStepIterImpl_copy (FloatStepIterImpl_init 0 (Finite 1)))
                     one_float_step))
   \<and> state_of 1 (call (float_step_advance 1) 1
          (snd (construct (FloatStepIterImpl_copy (FloatStepIterImpl_init 0 (Finite 1)))
                  one_float_step)))
        = Some \<lparr>iter = 1, step = Finite 1, error = Finite 0\<rparr>
   \<and> state_of 0 (call (float_step_advance 1) 1
          (snd (construct (FloatStepIterImpl_copy (FloatStepIterImpl_init 0 (Finite 1)))
                  one_float_step)))
        = Some (FloatStepIterImpl_init 0 (Finite 1))"
proof -
  have ok: "store_ok one_float_step"
    by (simp add: store_ok_def one_float_step_def)
  have at: "objs one_float_step 0 = Some (FloatStepIterImpl_init 0 (Finite 1))"
    by (simp add: one_float_step_def)
  have init: "FloatStepIterImpl_init 0 (Finite 1) = \<lparr>iter = 0, step = Finite 1, error = Finite 0\<rparr>"
    by (simp add: FloatStepIterImpl_init_def)
  note w = copies_are_independent [OF ok at, where copy = FloatStepIterImpl_copy
      and adv = float_step_advance and d = 1 and \<tau> = one_float_step and t = 0
      and b = "FloatStepIterImpl_init 0 (Finite 1)"]
  have p: "map_option fst
      (operator_plus FloatStepIterImpl_copy float_step_advance 0 1 one_float_step)
        = Some \<lparr>iter = 1, step = Finite 1, error = Finite 0\<rparr>"
    using w [THEN conjunct1]
    by (simp only: FloatStepIterImpl_copy_id init float_step_advance_1)
  have d1: "(1::int) \<noteq> - (2 ^ 63)" and d2: "- (2 ^ 31) \<le> (1::int) \<and> (1::int) < 2 ^ 31"
    by simp_all
  from d1 w [THEN conjunct2, THEN conjunct1] have m: "map_option fst
      (operator_minus FloatStepIterImpl_copy float_step_advance 0 1 one_float_step)
        = Some \<lparr>iter = - 1, step = Finite 1, error = Finite 0\<rparr>"
    by (simp only: FloatStepIterImpl_copy_id init float_step_advance_m1 simp_thms)
  from p obtain v \<sigma>' where e:
    "operator_plus FloatStepIterImpl_copy float_step_advance 0 1 one_float_step = Some (v, \<sigma>')"
    by auto
  from w [THEN conjunct2, THEN conjunct2, THEN conjunct1, THEN spec, THEN spec, of v \<sigma>'] e
  have "objs \<sigma>' = objs one_float_step"
    by (simp only: simp_thms)
  with e at have s: "state_of 0 (map_option snd
        (operator_plus FloatStepIterImpl_copy float_step_advance 0 1 one_float_step))
        = Some (FloatStepIterImpl_init 0 (Finite 1))"
    by (simp add: state_of_def)
  note fs = w [THEN conjunct2, THEN conjunct2, THEN conjunct2, THEN conjunct2, THEN conjunct2,
      THEN mp, OF conjI [OF ok at]]
  from d2 fs [THEN conjunct2, THEN conjunct1] have n: "int_of_ptrdiff 1 = 1"
    by (simp only: simp_thms)
  define \<tau>1 where "\<tau>1 = snd (construct (FloatStepIterImpl_copy (FloatStepIterImpl_init 0 (Finite 1)))
      one_float_step)"
  have c: "construct (FloatStepIterImpl_copy (FloatStepIterImpl_init 0 (Finite 1))) one_float_step
      = (1, \<tau>1)"
    by (simp add: \<tau>1_def construct_def one_float_step_def)
  have "objs \<tau>1 1 = Some \<lparr>iter = 0, step = Finite 1, error = Finite 0\<rparr>"
    by (simp add: \<tau>1_def construct_def one_float_step_def FloatStepIterImpl_copy_id init)
  then obtain \<tau>2 where g: "call (float_step_advance 1) 1 \<tau>1 = Some \<tau>2"
    by (simp add: call_def float_step_advance_1)
  from fs [THEN conjunct2, THEN conjunct2, THEN spec, THEN spec, THEN spec, THEN spec,
      of 1 \<tau>1 1 \<tau>2] c g
  have "objs \<tau>2 1 = float_step_advance 1 (FloatStepIterImpl_init 0 (Finite 1))
      \<and> objs \<tau>2 0 = Some (FloatStepIterImpl_init 0 (Finite 1))"
    by (simp only: simp_thms)
  with g have k: "state_of 1 (call (float_step_advance 1) 1 \<tau>1)
        = Some \<lparr>iter = 1, step = Finite 1, error = Finite 0\<rparr>"
      "state_of 0 (call (float_step_advance 1) 1 \<tau>1) = Some (FloatStepIterImpl_init 0 (Finite 1))"
    by (simp_all add: state_of_def init float_step_advance_1)
  from p m ok at s n c k d1 d2 show ?thesis
    unfolding \<tau>1_def [symmetric] by (intro conjI) simp_all
qed

text \<open>
  C9 as stated fails in two places. \<open>a - d\<close> at the least \<open>std::ptrdiff_t\<close> has no defined
  result. And a copy is not always independent: with \<open>Counter g; auto a = generator(g);
  auto c = a;\<close> the copy \<open>c\<close>, object 2, designates the same counter as \<open>a\<close>. The counter
  stands at 10; \<open>advance(1)\<close> on \<open>c\<close> leaves it at 11, so that \<open>advance(1)\<close> on \<open>a\<close>, which
  would have produced 10, now produces 11.
\<close>

theorem copy_shares_producer:
  "operator_minus FloatStepIterImpl_copy float_step_advance 0 (- (2 ^ 63)) one_float_step = None
   \<and> map_option fst (copy_construct_generating 1 shared_counter) = Some 2
   \<and> state_of 0 (Some shared_counter) = Some (Callable 10)
   \<and> state_of 0
        (Option.bind (map_option snd (copy_construct_generating 1 shared_counter))
           (GeneratingIterImpl_ref_advance counter 1 2))
       = Some (Callable 11)
   \<and> state_of 1 (GeneratingIterImpl_ref_advance counter 1 1 shared_counter)
       = Some (Generating_iterator \<lparr>val = 10, generator = 0\<rparr>)
   \<and> state_of 1
        (Option.bind
           (Option.bind (map_option snd (copy_construct_generating 1 shared_counter))
              (GeneratingIterImpl_ref_advance counter 1 2))
           (GeneratingIterImpl_ref_advance counter 1 1))
       = Some (Generating_iterator \<lparr>val = 11, generator = 0\<rparr>)"
proof -
  define \<sigma>1 where "\<sigma>1 = snd (construct (Generating_iterator
      (GeneratingIterImpl_copy \<lparr>val = 0 :: int, generator = 0\<rparr>)) shared_counter)"
  have cp: "copy_construct_generating 1 shared_counter = Some (2, \<sigma>1)"
    by (simp add: copy_construct_generating_def shared_counter_def construct_def \<sigma>1_def)
  have s1: "objs \<sigma>1 0 = Some (Callable 10)"
    "objs \<sigma>1 2 = Some (Generating_iterator \<lparr>val = 0, generator = 0\<rparr>)"
    "objs \<sigma>1 1 = Some (Generating_iterator \<lparr>val = 0, generator = 0\<rparr>)"
    by (simp_all add: \<sigma>1_def construct_def shared_counter_def GeneratingIterImpl_copy_def)
  define \<sigma>2 where "\<sigma>2 = \<sigma>1\<lparr>objs := (objs \<sigma>1)(0 \<mapsto> Callable 11,
      2 \<mapsto> Generating_iterator \<lparr>val = 10, generator = 0\<rparr>)\<rparr>"
  have a: "GeneratingIterImpl_ref_advance counter 1 2 \<sigma>1 = Some \<sigma>2"
    using ref_advance_once [of \<sigma>1 2 "\<lparr>val = 0, generator = 0\<rparr>" 10 counter] s1
    by (simp add: \<sigma>2_def counter_def)
  have s2: "objs \<sigma>2 0 = Some (Callable 11)"
    "objs \<sigma>2 1 = Some (Generating_iterator \<lparr>val = 0, generator = 0\<rparr>)"
    using s1 by (simp_all add: \<sigma>2_def)
  have b: "state_of 1 (GeneratingIterImpl_ref_advance counter 1 1 \<sigma>2)
      = Some (Generating_iterator \<lparr>val = 11, generator = 0\<rparr>)"
    using ref_advance_once [of \<sigma>2 1 "\<lparr>val = 0, generator = 0\<rparr>" 11 counter] s2
    by (simp add: state_of_def counter_def)
  have c: "state_of 1 (GeneratingIterImpl_ref_advance counter 1 1 shared_counter)
      = Some (Generating_iterator \<lparr>val = 10, generator = 0\<rparr>)"
    using ref_advance_once [of shared_counter 1 "\<lparr>val = 0, generator = 0\<rparr>" 10 counter]
    by (simp add: state_of_def counter_def shared_counter_def)
  have d: "state_of 0 (Some shared_counter) = Some (Callable 10)"
    by (simp add: state_of_def shared_counter_def)
  have e: "state_of 0 (Some \<sigma>2) = Some (Callable 11)"
    using s2 by (simp add: state_of_def)
  have f: "operator_minus FloatStepIterImpl_copy float_step_advance 0 (- (2 ^ 63)) one_float_step
      = None"
    by (simp add: operator_minus_eq)
  show ?thesis
    unfolding cp
    by (simp only: option.map prod.sel bind.simps a b c d e f simp_thms)
qed

end
